theory Spec2Isabelle
  imports Main "HOL-Library.Char_ord" "HOL-Library.List_Lexorder" "HOL-Library.AList"
begin

section \<open>Bytes, text and number formatting\<close>

text \<open>
  Python \<open>bytes\<close> are lists of 8-bit characters.  A Python \<open>str\<close> is represented by
  the list of its UTF-8 bytes, so \<open>encode()\<close> is the identity, \<open>len(s.encode())\<close> is
  \<open>length\<close>, and the order of \<open>str\<close> (by code point) is the lexicographic order of
  the byte lists.
\<close>

type_synonym bytes = "char list"

definition NUL :: char where
  "NUL = CHR 0x00"

text \<open>Decimal and octal digits of a natural number, most significant first.\<close>

definition digit_char :: "nat \<Rightarrow> char" where
  "digit_char d = char_of (48 + d)"

function digits_of :: "nat \<Rightarrow> nat \<Rightarrow> string" where
  "digits_of b n =
     (if b < 2 \<or> n < b then [digit_char n]
      else digits_of b (n div b) @ [digit_char (n mod b)])"
  by pat_completeness auto
termination
  by (relation "measure (\<lambda>(b, n). n)") auto

declare digits_of.simps [simp del]

text \<open>\<open>'{}'.format(n)\<close> and \<open>'{:o}'.format(n)\<close> for a Python int.\<close>

definition format_int :: "nat \<Rightarrow> int \<Rightarrow> string" where
  "format_int b n =
     (if n < 0 then CHR ''-'' # digits_of b (nat (- n)) else digits_of b (nat n))"

text \<open>\<open>bytes.hex()\<close>: two lowercase hexadecimal digits for each byte.\<close>

definition hex_digit :: "nat \<Rightarrow> char" where
  "hex_digit d = (if d < 10 then char_of (48 + d) else char_of (87 + d))"

definition hex :: "bytes \<Rightarrow> string" where
  "hex bs = concat (map (\<lambda>c. [hex_digit (of_char c div 16), hex_digit (of_char c mod 16)]) bs)"

section \<open>Repository state\<close>

text \<open>
  The files the program reads and writes.  A directory is an association list from file
  name to content, in the order \<open>os.listdir\<close> reports it; a real directory holds each
  name once (\<open>wf_objects\<close>).  \<open>objects\<close> maps the name of a sub-directory of
  \<open>.git/objects\<close> to its listing, \<open>None\<close> when the directory does not exist.
\<close>

record wfile =
  content :: bytes
  st_ctime :: int
  st_mtime :: int
  st_dev :: int
  st_ino :: int
  st_mode :: int
  st_uid :: int
  st_gid :: int
  st_size :: int

record repo =
  index_file :: "bytes option"
  master_file :: "bytes option"
  objects :: "string \<Rightarrow> (string \<times> bytes) list option"
  worktree :: "(string \<times> wfile) list"


definition listdir :: "repo \<Rightarrow> string \<Rightarrow> string list option" where
  "listdir fs d = map_option (map fst) (objects fs d)"

definition object_exists :: "repo \<Rightarrow> string \<Rightarrow> string \<Rightarrow> bool" where
  "object_exists fs d name =
     (case objects fs d of None \<Rightarrow> False | Some l \<Rightarrow> name \<in> set (map fst l))"

text \<open>\<open>os.makedirs(dir, exist_ok=True)\<close> followed by \<open>write_file(path, data)\<close>.\<close>

definition write_object_file :: "repo \<Rightarrow> string \<Rightarrow> string \<Rightarrow> bytes \<Rightarrow> repo" where
  "write_object_file fs d name data =
     fs\<lparr>objects := (objects fs)
        (d \<mapsto> AList.update name data (case objects fs d of None \<Rightarrow> [] | Some l \<Rightarrow> l))\<rparr>"


section \<open>Object store\<close>

text \<open>
  \<open>hashlib.sha1(...).digest()\<close> and \<open>zlib.compress\<close> are library functions; they
  are the parameters \<open>sha1f\<close> and \<open>compress\<close>.
\<close>

definition hash_object ::
  "(bytes \<Rightarrow> bytes) \<Rightarrow> (bytes \<Rightarrow> bytes) \<Rightarrow> bytes \<Rightarrow> string \<Rightarrow> bool \<Rightarrow> repo \<Rightarrow> string \<times> repo" where
  "hash_object sha1f compress data object_type write fs =
     (let header = object_type @ '' '' @ format_int 10 (int (length data));
          full_data = header @ [NUL] @ data;
          sha1hex = hex (sha1f full_data)
      in if write then
           (if \<not> object_exists fs (take 2 sha1hex) (drop 2 sha1hex)
            then (sha1hex,
                  write_object_file fs (take 2 sha1hex) (drop 2 sha1hex) (compress full_data))
            else (sha1hex, fs))
         else (sha1hex, fs))"

text \<open>A digest function used to run the definitions on concrete inputs.\<close>

definition sample_digest :: "bytes \<Rightarrow> bytes" where
  "sample_digest bs = replicate 19 NUL @ [char_of (sum_list (map of_char bs) :: nat)]"

section \<open>Errors\<close>

text \<open>
  Every exception the program can raise is a value.  \<open>ValueError\<close> and
  \<open>AssertionError\<close> carry the message of the raise site (translated where the source
  has it in Chinese, without the formatted arguments).
\<close>

datatype error =
    ValueError string
  | AssertionError string
  | FileNotFoundError
  | KeyError
  | StructError
  | TypeError
  | UnicodeDecodeError
  | ZlibError

definition ebind :: "error + 'a \<Rightarrow> ('a \<Rightarrow> error + 'b) \<Rightarrow> error + 'b" where
  "ebind m f = (case m of Inl e \<Rightarrow> Inl e | Inr x \<Rightarrow> f x)"

section \<open>Python's bytes and str operations\<close>

text \<open>\<open>s[a:b]\<close> for \<open>0 \<le> a\<close>, \<open>0 \<le> b\<close>; slices are clamped to the sequence.\<close>

definition slice :: "'a list \<Rightarrow> nat \<Rightarrow> nat \<Rightarrow> 'a list" where
  "slice xs a b = take (b - a) (drop a xs)"

text \<open>\<open>data.find(c, i)\<close> for a single byte: the first position at or after \<open>i\<close>.\<close>

fun index_from :: "char \<Rightarrow> bytes \<Rightarrow> nat \<Rightarrow> nat option" where
  "index_from c [] k = None"
| "index_from c (x # xs) k = (if x = c then Some k else index_from c xs (Suc k))"

definition find_byte :: "char \<Rightarrow> bytes \<Rightarrow> nat \<Rightarrow> nat option" where
  "find_byte c data i = index_from c (drop i data) i"

definition startswith :: "string \<Rightarrow> string \<Rightarrow> bool" where
  "startswith s p = (take (length p) s = p)"

text \<open>
  Code points of a \<open>str\<close> held as UTF-8: a byte \<open>10xxxxxx\<close> continues the code point
  before it.  \<open>py_len\<close> is \<open>len(s)\<close>, \<open>py_drop n s\<close> is \<open>s[n:]\<close> and
  \<open>py_take n s\<close> is \<open>s[:n]\<close>.
\<close>

definition is_cont :: "char \<Rightarrow> bool" where
  "is_cont c = (128 \<le> (of_char c :: nat) \<and> (of_char c :: nat) < 192)"

definition py_len :: "string \<Rightarrow> nat" where
  "py_len s = length (filter (\<lambda>c. \<not> is_cont c) s)"

fun py_drop :: "nat \<Rightarrow> string \<Rightarrow> string" where
  "py_drop 0 s = s"
| "py_drop (Suc n) [] = []"
| "py_drop (Suc n) (c # cs) = py_drop n (dropWhile is_cont cs)"

definition py_take :: "nat \<Rightarrow> string \<Rightarrow> string" where
  "py_take n s = take (length s - length (py_drop n s)) s"

text \<open>\<open>bytes.decode()\<close>: strict UTF-8 (no overlong forms, no surrogates, at most U+10FFFF).\<close>

definition cont_byte :: "nat \<Rightarrow> bool" where
  "cont_byte c = (128 \<le> c \<and> c \<le> 191)"

fun utf8_ok :: "nat list \<Rightarrow> bool" where
  "utf8_ok [] = True"
| "utf8_ok (b # bs) =
     (if b < 128 then utf8_ok bs
      else if 194 \<le> b \<and> b \<le> 223 then
        (case bs of c1 # r \<Rightarrow> cont_byte c1 \<and> utf8_ok r | _ \<Rightarrow> False)
      else if 224 \<le> b \<and> b \<le> 239 then
        (case bs of
           c1 # c2 # r \<Rightarrow>
             (if b = 224 then 160 else 128) \<le> c1 \<and> c1 \<le> (if b = 237 then 159 else 191)
             \<and> cont_byte c2 \<and> utf8_ok r
         | _ \<Rightarrow> False)
      else if 240 \<le> b \<and> b \<le> 244 then
        (case bs of
           c1 # c2 # c3 # r \<Rightarrow>
             (if b = 240 then 144 else 128) \<le> c1 \<and> c1 \<le> (if b = 244 then 143 else 191)
             \<and> cont_byte c2 \<and> cont_byte c3 \<and> utf8_ok r
         | _ \<Rightarrow> False)
      else False)"

definition utf8_valid :: "bytes \<Rightarrow> bool" where
  "utf8_valid s = utf8_ok (map of_char s)"

definition decode :: "bytes \<Rightarrow> error + string" where
  "decode s = (if utf8_valid s then Inr s else Inl UnicodeDecodeError)"

text \<open>
  The white space of \<open>str.split()\<close> and \<open>str.strip()\<close>: U+0009..U+000D,
  U+001C..U+0020, U+0085, U+00A0, U+1680, U+2000..U+200A, U+2028, U+2029, U+202F, U+205F and
  U+3000.  \<open>ws_len s\<close> is the number of bytes of the white-space character \<open>s\<close>
  starts with, 0 when it starts with none.
\<close>

definition ws_len :: "string \<Rightarrow> nat" where
  "ws_len s =
     (case map of_char s of
        [] \<Rightarrow> 0
      | b0 # r \<Rightarrow>
          if (9 \<le> b0 \<and> b0 \<le> 13) \<or> (28 \<le> b0 \<and> b0 \<le> (32::nat)) then 1
          else if b0 = 194 then
            (case r of b1 # _ \<Rightarrow> if b1 = 133 \<or> b1 = 160 then 2 else 0 | [] \<Rightarrow> 0)
          else if b0 = 225 then
            (case r of b1 # b2 # _ \<Rightarrow> if b1 = 154 \<and> b2 = 128 then 3 else 0 | _ \<Rightarrow> 0)
          else if b0 = 226 then
            (case r of
               b1 # b2 # _ \<Rightarrow>
                 if (b1 = 128 \<and> ((128 \<le> b2 \<and> b2 \<le> 138) \<or> b2 = 168 \<or> b2 = 169 \<or> b2 = 175))
                    \<or> (b1 = 129 \<and> b2 = 159)
                 then 3 else 0
             | _ \<Rightarrow> 0)
          else if b0 = 227 then
            (case r of b1 # b2 # _ \<Rightarrow> if b1 = 128 \<and> b2 = 128 then 3 else 0 | _ \<Rightarrow> 0)
          else 0)"

text \<open>
  \<open>s.split()\<close>.  \<open>split_go k w s\<close> skips \<open>k\<close> more bytes of the white-space character
  it is in; \<open>w\<close> is the word read so far, reversed.
\<close>

fun split_go :: "nat \<Rightarrow> string \<Rightarrow> string \<Rightarrow> string list" where
  "split_go k w [] = (if w = [] then [] else [rev w])"
| "split_go (Suc k) w (c # cs) = split_go k w cs"
| "split_go 0 w (c # cs) =
     (if ws_len (c # cs) = 0 then split_go 0 (c # w) cs
      else (if w = [] then [] else [rev w]) @ split_go (ws_len (c # cs) - 1) [] cs)"

definition split :: "string \<Rightarrow> string list" where
  "split s = split_go 0 [] s"

text \<open>\<open>s.strip()\<close>.\<close>

fun lstrip_go :: "nat \<Rightarrow> string \<Rightarrow> string" where
  "lstrip_go k [] = []"
| "lstrip_go (Suc k) (c # cs) = lstrip_go k cs"
| "lstrip_go 0 (c # cs) =
     (if ws_len (c # cs) = 0 then c # cs else lstrip_go (ws_len (c # cs) - 1) cs)"

fun rstrip_go :: "nat \<Rightarrow> string \<Rightarrow> string \<Rightarrow> string" where
  "rstrip_go k pending [] = []"
| "rstrip_go (Suc k) pending (c # cs) = rstrip_go k (pending @ [c]) cs"
| "rstrip_go 0 pending (c # cs) =
     (if ws_len (c # cs) = 0 then pending @ c # rstrip_go 0 [] cs
      else rstrip_go (ws_len (c # cs) - 1) (pending @ [c]) cs)"

definition strip :: "string \<Rightarrow> string" where
  "strip s = rstrip_go 0 [] (lstrip_go 0 s)"

text \<open>
  \<open>int(s, base)\<close> for the bases the program uses (8 and 10), on text without white
  space (the program passes words of \<open>split()\<close>): an optional sign, for base 8 an optional
  prefix \<open>0o\<close>, then digits, single underscores allowed between digits and after the
  prefix.  In base 10 a text of more than 4300 digits is refused (the conversion limit of
  CPython 3.11).  Only the ASCII digits are recognised: \<open>int\<close> also accepts the other
  decimal digits of Unicode, which this definition refuses.
\<close>

definition digit_val :: "char \<Rightarrow> nat option" where
  "digit_val c =
     (if 48 \<le> (of_char c :: nat) \<and> (of_char c :: nat) \<le> 57 then Some (of_char c - 48) else None)"

fun parse_digits :: "nat \<Rightarrow> bool \<Rightarrow> nat \<Rightarrow> string \<Rightarrow> nat option" where
  "parse_digits b prev acc [] = (if prev then Some acc else None)"
| "parse_digits b prev acc (c # cs) =
     (if c = CHR ''_'' then (if prev \<and> cs \<noteq> [] then parse_digits b False acc cs else None)
      else (case digit_val c of
              None \<Rightarrow> None
            | Some d \<Rightarrow> if d < b then parse_digits b True (acc * b + d) cs else None))"

definition digit_run :: "nat \<Rightarrow> string \<Rightarrow> nat" where
  "digit_run b s =
     length (filter (\<lambda>c. c \<noteq> CHR ''_'')
       (takeWhile (\<lambda>c. c = CHR ''_'' \<or> (case digit_val c of None \<Rightarrow> False | Some d \<Rightarrow> d < b)) s))"

definition py_int :: "nat \<Rightarrow> string \<Rightarrow> error + int" where
  "py_int b s =
     (let neg = (take 1 s = ''-'');
          r = (if take 1 s = ''-'' \<or> take 1 s = ''+'' then drop 1 s else s);
          pre = (b = 8 \<and> (take 2 r = ''0o'' \<or> take 2 r = ''0O''));
          r2 = (if pre then drop 2 r else r);
          r3 = (if pre \<and> take 1 r2 = ''_'' then drop 1 r2 else r2)
      in if b = 10 \<and> 4300 < digit_run b r3
         then Inl (ValueError ''Exceeds the limit (4300 digits) for integer string conversion'')
         else case parse_digits b False 0 r3 of
                None \<Rightarrow> Inl (ValueError ''invalid literal for int()'')
              | Some n \<Rightarrow> Inr (if neg then - int n else int n))"

text \<open>\<open>bytes.fromhex\<close> on pairs of hexadecimal digits.\<close>

definition hex_val :: "char \<Rightarrow> nat option" where
  "hex_val c =
     (let v = (of_char c :: nat)
      in if 48 \<le> v \<and> v \<le> 57 then Some (v - 48)
         else if 97 \<le> v \<and> v \<le> 102 then Some (v - 87)
         else if 65 \<le> v \<and> v \<le> 70 then Some (v - 55)
         else None)"

fun fromhex :: "string \<Rightarrow> error + bytes" where
  "fromhex [] = Inr []"
| "fromhex [c] = Inl (ValueError ''non-hexadecimal number found in fromhex() arg'')"
| "fromhex (c # d # r) =
     (case (hex_val c, hex_val d) of
        (Some h, Some l) \<Rightarrow> ebind (fromhex r) (\<lambda>bs. Inr (char_of (16 * h + l) # bs))
      | _ \<Rightarrow> Inl (ValueError ''non-hexadecimal number found in fromhex() arg''))"

text \<open>\<open>struct.pack\<close> and \<open>struct.unpack\<close>, big-endian (\<open>!\<close>).\<close>

definition be_bytes :: "nat \<Rightarrow> int \<Rightarrow> bytes" where
  "be_bytes k n = map (\<lambda>i. char_of (n div 256 ^ (k - 1 - i))) [0..<k]"

definition be_int :: "bytes \<Rightarrow> int" where
  "be_int bs = foldl (\<lambda>acc c. acc * 256 + of_char c) 0 bs"

definition pack_int :: "nat \<Rightarrow> int \<Rightarrow> error + bytes" where
  "pack_int k n = (if 0 \<le> n \<and> n < 256 ^ k then Inr (be_bytes k n) else Inl StructError)"

definition pack_s :: "nat \<Rightarrow> bytes \<Rightarrow> bytes" where
  "pack_s k s = take k (s @ replicate k NUL)"

section \<open>Object lookup\<close>

text \<open>
  \<open>find_object\<close> returns the directory and the file name of the object.
  \<open>os.listdir\<close> raises \<open>FileNotFoundError\<close> when the directory does not exist.
  The first two characters of the prefix are taken as the name of a directory of
  \<open>.git/objects\<close>; a prefix whose first two characters are themselves a path (they
  contain \<open>/\<close>, or are \<open>..\<close>) makes \<open>os.path.join\<close> name a directory
  elsewhere, which \<open>objects\<close> does not describe.
\<close>

definition find_object :: "repo \<Rightarrow> string \<Rightarrow> error + (string \<times> string)" where
  "find_object fs sha1_prefix =
     (if py_len sha1_prefix < 2
      then Inl (ValueError ''hash prefix must be 2 or more characters'')
      else case listdir fs (py_take 2 sha1_prefix) of
             None \<Rightarrow> Inl FileNotFoundError
           | Some names \<Rightarrow>
               (let rest = py_drop 2 sha1_prefix;
                    objs = filter (\<lambda>name. startswith name rest) names
                in if objs = [] then Inl (ValueError ''object not found'')
                   else if length objs \<ge> 2 then Inl (ValueError ''multiple objects with prefix'')
                   else Inr (py_take 2 sha1_prefix, hd objs)))"

definition read_object_file :: "repo \<Rightarrow> string \<Rightarrow> string \<Rightarrow> error + bytes" where
  "read_object_file fs d name =
     (case objects fs d of
        None \<Rightarrow> Inl FileNotFoundError
      | Some l \<Rightarrow> (case map_of l name of None \<Rightarrow> Inl FileNotFoundError | Some data \<Rightarrow> Inr data))"

text \<open>\<open>zlib.decompress\<close> is the parameter \<open>decompress\<close>.\<close>

definition read_object ::
  "(bytes \<Rightarrow> error + bytes) \<Rightarrow> repo \<Rightarrow> string \<Rightarrow> error + (string \<times> bytes)" where
  "read_object decompress fs sha1_prefix =
     ebind (find_object fs sha1_prefix) (\<lambda>(d, name).
     ebind (read_object_file fs d name) (\<lambda>raw.
     ebind (decompress raw) (\<lambda>full_data.
       case find_byte NUL full_data 0 of
         None \<Rightarrow> Inl (ValueError ''subsection not found'')
       | Some nul_index \<Rightarrow>
           ebind (decode (take nul_index full_data)) (\<lambda>header.
             case split header of
               [obj_type, size_str] \<Rightarrow>
                 ebind (py_int 10 size_str) (\<lambda>size.
                   if size = int (length (drop (nul_index + 1) full_data))
                   then Inr (obj_type, drop (nul_index + 1) full_data)
                   else Inl (AssertionError ''unexpected size''))
             | _ \<Rightarrow> Inl (ValueError ''unpack'')))))"

section \<open>Index\<close>

record index_entry =
  ctime_s :: int
  ctime_n :: int
  mtime_s :: int
  mtime_n :: int
  dev :: int
  ino :: int
  mode :: int
  uid :: int
  gid :: int
  size_f :: int
  sha1 :: bytes
  flags :: int
  path :: string

text \<open>\<open>struct.unpack('!LLLLLLLLLL20sH', b)\<close> on 62 bytes, and the decoded path.\<close>

definition unpack_entry :: "bytes \<Rightarrow> string \<Rightarrow> index_entry" where
  "unpack_entry b p =
     \<lparr>ctime_s = be_int (slice b 0 4), ctime_n = be_int (slice b 4 8),
      mtime_s = be_int (slice b 8 12), mtime_n = be_int (slice b 12 16),
      dev = be_int (slice b 16 20), ino = be_int (slice b 20 24),
      mode = be_int (slice b 24 28), uid = be_int (slice b 28 32),
      gid = be_int (slice b 32 36), size_f = be_int (slice b 36 40),
      sha1 = slice b 40 60, flags = be_int (slice b 60 62), path = p\<rparr>"

function read_entries :: "bytes \<Rightarrow> nat \<Rightarrow> index_entry list \<Rightarrow> error + index_entry list" where
  "read_entries entry_data i entries =
     (if i + 62 < length entry_data then
        (case find_byte NUL entry_data (i + 62) of
           None \<Rightarrow> Inl (ValueError ''subsection not found'')
         | Some path_end \<Rightarrow>
             (case decode (slice entry_data (i + 62) path_end) of
                Inl e \<Rightarrow> Inl e
              | Inr p \<Rightarrow>
                  read_entries entry_data
                    (i + ((62 + length (slice entry_data (i + 62) path_end) + 8) div 8) * 8)
                    (entries @ [unpack_entry (slice entry_data i (i + 62)) p])))
      else Inr entries)"
  by pat_completeness auto
termination
  by (relation "measure (\<lambda>(entry_data, i, entries). length entry_data - i)") auto

declare read_entries.simps [simp del]

text \<open>\<open>hashlib.sha1(...).digest()\<close> is the parameter \<open>sha1f\<close>.\<close>

definition read_index :: "(bytes \<Rightarrow> bytes) \<Rightarrow> repo \<Rightarrow> error + index_entry list" where
  "read_index sha1f fs =
     (case index_file fs of
        None \<Rightarrow> Inr []
      | Some data \<Rightarrow>
          if sha1f (take (length data - 20) data) \<noteq> drop (length data - 20) data
          then Inl (AssertionError ''invalid index checksum'')
          else if length data < 12 then Inl StructError
          else if take 4 data \<noteq> ''DIRC''
          then Inl (AssertionError ''invalid index signature'')
          else if be_int (slice data 4 8) \<noteq> 2
          then Inl (AssertionError ''unknown index version'')
          else ebind (read_entries (drop 12 (take (length data - 20) data)) 0 []) (\<lambda>entries.
                 if int (length entries) = be_int (slice data 8 12) then Inr entries
                 else Inl (AssertionError '''')))"

definition pack_entry :: "index_entry \<Rightarrow> error + bytes" where
  "pack_entry entry =
     ebind (pack_int 4 (ctime_s entry)) (\<lambda>b0.
     ebind (pack_int 4 (ctime_n entry)) (\<lambda>b1.
     ebind (pack_int 4 (mtime_s entry)) (\<lambda>b2.
     ebind (pack_int 4 (mtime_n entry)) (\<lambda>b3.
     ebind (pack_int 4 (dev entry)) (\<lambda>b4.
     ebind (pack_int 4 (ino entry)) (\<lambda>b5.
     ebind (pack_int 4 (mode entry)) (\<lambda>b6.
     ebind (pack_int 4 (uid entry)) (\<lambda>b7.
     ebind (pack_int 4 (gid entry)) (\<lambda>b8.
     ebind (pack_int 4 (size_f entry)) (\<lambda>b9.
     ebind (pack_int 2 (flags entry)) (\<lambda>b11.
       Inr ((b0 @ b1 @ b2 @ b3 @ b4 @ b5 @ b6 @ b7 @ b8 @ b9 @ pack_s 20 (sha1 entry) @ b11)
            @ path entry
            @ replicate (((62 + length (path entry) + 8) div 8) * 8 - 62 - length (path entry))
                NUL))))))))))))"

fun pack_entries :: "index_entry list \<Rightarrow> error + bytes list" where
  "pack_entries [] = Inr []"
| "pack_entries (entry # entries) =
     ebind (pack_entry entry) (\<lambda>packed_entry.
     ebind (pack_entries entries) (\<lambda>packed_entries. Inr (packed_entry # packed_entries)))"

text \<open>The bytes \<open>write_index\<close> writes: header, packed entries, digest.\<close>

definition index_bytes :: "(bytes \<Rightarrow> bytes) \<Rightarrow> index_entry list \<Rightarrow> error + bytes" where
  "index_bytes sha1f entries =
     ebind (pack_entries entries) (\<lambda>packed_entries.
     ebind (pack_int 4 (int (length entries))) (\<lambda>n.
       Inr ((''DIRC'' @ be_bytes 4 2 @ n @ concat packed_entries)
            @ sha1f (''DIRC'' @ be_bytes 4 2 @ n @ concat packed_entries))))"

definition write_index ::
  "(bytes \<Rightarrow> bytes) \<Rightarrow> index_entry list \<Rightarrow> repo \<Rightarrow> (error + unit) \<times> repo" where
  "write_index sha1f entries fs =
     (case index_bytes sha1f entries of
        Inl e \<Rightarrow> (Inl e, fs)
      | Inr data \<Rightarrow> (Inr (), fs\<lparr>index_file := Some data\<rparr>))"

section \<open>Working directory\<close>

text \<open>
  \<open>worktree\<close> lists the regular files outside every \<open>.git\<close> directory by their path
  relative to the working directory; \<open>os.walk('.')\<close> with \<open>os.path.join\<close> reports each as
  \<open>./path\<close>.

  \<open>open\<close> and \<open>os.stat\<close> leave it to the operating system to find the file a path
  text names (\<open>./a\<close>, \<open>d/../a\<close> and \<open>a\<close> name one file).  That resolution is the
  parameter \<open>resolve\<close>: the key in \<open>worktree\<close> of the file the text names, \<open>None\<close>
  when it names no file.
\<close>

definition walk :: "repo \<Rightarrow> string list" where
  "walk fs = map (\<lambda>(p, f). ''./'' @ p) (worktree fs)"

definition stat :: "(string \<Rightarrow> string option) \<Rightarrow> repo \<Rightarrow> string \<Rightarrow> error + wfile" where
  "stat resolve fs p =
     (case resolve p of
        None \<Rightarrow> Inl FileNotFoundError
      | Some k \<Rightarrow>
          (case map_of (worktree fs) k of None \<Rightarrow> Inl FileNotFoundError | Some f \<Rightarrow> Inr f))"

definition read_file :: "(string \<Rightarrow> string option) \<Rightarrow> repo \<Rightarrow> string \<Rightarrow> error + bytes" where
  "read_file resolve fs p = ebind (stat resolve fs p) (\<lambda>f. Inr (content f))"

definition replace_backslash :: "string \<Rightarrow> string" where
  "replace_backslash p = map (\<lambda>c. if c = CHR 0x5C then CHR ''/'' else c) p"

definition normalise :: "string \<Rightarrow> string" where
  "normalise p =
     (if startswith (replace_backslash p) ''./'' then drop 2 (replace_backslash p)
      else replace_backslash p)"

section \<open>Status and diff\<close>

text \<open>\<open>{e.path: e for e in entries}\<close>: the last entry of a path wins.\<close>

definition entries_by_path :: "index_entry list \<Rightarrow> string \<Rightarrow> index_entry option" where
  "entries_by_path entries = map_of (rev (map (\<lambda>e. (path e, e)) entries))"

text \<open>
  The set comprehension of \<open>get_status\<close> that gives \<open>changed\<close>, over the paths present
  on both sides: each file is read and hashed with the write flag off, and the state is
  threaded through the calls of \<open>hash_object\<close>.
\<close>

fun changed_paths ::
  "(bytes \<Rightarrow> bytes) \<Rightarrow> (bytes \<Rightarrow> bytes) \<Rightarrow> (string \<Rightarrow> string option)
     \<Rightarrow> (string \<Rightarrow> index_entry option) \<Rightarrow> string list \<Rightarrow> repo
     \<Rightarrow> (error + string list) \<times> repo" where
  "changed_paths sha1f compress resolve by_path [] fs = (Inr [], fs)"
| "changed_paths sha1f compress resolve by_path (p # ps) fs =
     (case read_file resolve fs p of
        Inl e \<Rightarrow> (Inl e, fs)
      | Inr data \<Rightarrow>
          (case hash_object sha1f compress data ''blob'' False fs of
             (h, fs1) \<Rightarrow>
               (case by_path p of
                  None \<Rightarrow> (Inl KeyError, fs1)
                | Some e \<Rightarrow>
                    (case changed_paths sha1f compress resolve by_path ps fs1 of
                       (Inl err, fs2) \<Rightarrow> (Inl err, fs2)
                     | (Inr rest, fs2) \<Rightarrow>
                         (Inr (if h \<noteq> hex (sha1 e) then p # rest else rest), fs2)))))"

definition get_status ::
  "(bytes \<Rightarrow> bytes) \<Rightarrow> (bytes \<Rightarrow> bytes) \<Rightarrow> (string \<Rightarrow> string option) \<Rightarrow> repo
     \<Rightarrow> (error + (string list \<times> string list \<times> string list)) \<times> repo" where
  "get_status sha1f compress resolve fs =
     (let paths = remdups (map normalise (walk fs))
      in case read_index sha1f fs of
           Inl e \<Rightarrow> (Inl e, fs)
         | Inr entries \<Rightarrow>
             (let entry_paths = remdups (map path entries)
              in case changed_paths sha1f compress resolve (entries_by_path entries)
                        (filter (\<lambda>p. p \<in> set entry_paths) paths) fs of
                   (Inl e, fs1) \<Rightarrow> (Inl e, fs1)
                 | (Inr changed, fs1) \<Rightarrow>
                     (Inr (sort changed,
                           sort (filter (\<lambda>p. p \<notin> set entry_paths) paths),
                           sort (filter (\<lambda>p. p \<notin> set paths) entry_paths)), fs1)))"

text \<open>
  \<open>diff\<close> returns the lines it prints.  \<open>str.splitlines\<close> and
  \<open>difflib.unified_diff\<close> are the parameters \<open>splitlines\<close> and \<open>unified_diff\<close>.
\<close>

fun diff_lines ::
  "(bytes \<Rightarrow> error + bytes) \<Rightarrow> (string \<Rightarrow> string list)
     \<Rightarrow> (string list \<Rightarrow> string list \<Rightarrow> string \<Rightarrow> string \<Rightarrow> string list)
     \<Rightarrow> (string \<Rightarrow> string option) \<Rightarrow> (string \<Rightarrow> index_entry option) \<Rightarrow> repo \<Rightarrow> string list
     \<Rightarrow> error + string list" where
  "diff_lines decompress splitlines unified_diff resolve by_path fs [] = Inr []"
| "diff_lines decompress splitlines unified_diff resolve by_path fs (p # ps) =
     (case by_path p of
        None \<Rightarrow> Inl KeyError
      | Some e \<Rightarrow>
          ebind (read_object decompress fs (hex (sha1 e))) (\<lambda>(obj_type, data).
            if obj_type \<noteq> ''blob'' then Inl (AssertionError '''')
            else
              ebind (decode data) (\<lambda>index_text.
              ebind (read_file resolve fs p) (\<lambda>working.
              ebind (decode working) (\<lambda>working_text.
              ebind (diff_lines decompress splitlines unified_diff resolve by_path fs ps)
                (\<lambda>rest.
                Inr (unified_diff (splitlines index_text) (splitlines working_text)
                       (p @ '' (index)'') (p @ '' (working copy)'')
                     @ (if ps \<noteq> [] then [replicate 70 CHR ''-''] else [])
                     @ rest)))))))"

definition diff ::
  "(bytes \<Rightarrow> bytes) \<Rightarrow> (bytes \<Rightarrow> bytes) \<Rightarrow> (bytes \<Rightarrow> error + bytes) \<Rightarrow> (string \<Rightarrow> string list)
     \<Rightarrow> (string list \<Rightarrow> string list \<Rightarrow> string \<Rightarrow> string \<Rightarrow> string list)
     \<Rightarrow> (string \<Rightarrow> string option) \<Rightarrow> repo \<Rightarrow> (error + string list) \<times> repo" where
  "diff sha1f compress decompress splitlines unified_diff resolve fs =
     (case get_status sha1f compress resolve fs of
        (Inl e, fs1) \<Rightarrow> (Inl e, fs1)
      | (Inr (changed, new, deleted), fs1) \<Rightarrow>
          (case read_index sha1f fs1 of
             Inl e \<Rightarrow> (Inl e, fs1)
           | Inr entries \<Rightarrow>
               (diff_lines decompress splitlines unified_diff resolve (entries_by_path entries)
                  fs1 changed, fs1)))"

section \<open>Adding files\<close>

text \<open>
  The loop of \<open>add\<close> over the paths: the blob is stored, the file's metadata read, the
  length of the path checked and the entry appended.
\<close>

fun add_entries ::
  "(bytes \<Rightarrow> bytes) \<Rightarrow> (bytes \<Rightarrow> bytes) \<Rightarrow> (string \<Rightarrow> string option) \<Rightarrow> string list
     \<Rightarrow> index_entry list \<Rightarrow> repo \<Rightarrow> (error + index_entry list) \<times> repo" where
  "add_entries sha1f compress resolve [] entries fs = (Inr entries, fs)"
| "add_entries sha1f compress resolve (p # ps) entries fs =
     (case read_file resolve fs p of
        Inl e \<Rightarrow> (Inl e, fs)
      | Inr data \<Rightarrow>
          (case hash_object sha1f compress data ''blob'' True fs of
             (h, fs1) \<Rightarrow>
               (case stat resolve fs1 p of
                  Inl e \<Rightarrow> (Inl e, fs1)
                | Inr st \<Rightarrow>
                    if \<not> length p < 2 ^ 12 then (Inl (AssertionError ''''), fs1)
                    else
                      (case fromhex h of
                         Inl e \<Rightarrow> (Inl e, fs1)
                       | Inr digest \<Rightarrow>
                           add_entries sha1f compress resolve ps
                             (entries @
                              [\<lparr>ctime_s = st_ctime st, ctime_n = 0, mtime_s = st_mtime st,
                                mtime_n = 0, dev = st_dev st, ino = st_ino st,
                                mode = st_mode st, uid = st_uid st, gid = st_gid st,
                                size_f = st_size st, sha1 = digest, flags = int (length p),
                                path = p\<rparr>])
                             fs1))))"

definition add ::
  "(bytes \<Rightarrow> bytes) \<Rightarrow> (bytes \<Rightarrow> bytes) \<Rightarrow> (string \<Rightarrow> string option) \<Rightarrow> string list \<Rightarrow> repo
     \<Rightarrow> (error + unit) \<times> repo" where
  "add sha1f compress resolve paths0 fs =
     (let paths = map replace_backslash paths0
      in case read_index sha1f fs of
           Inl e \<Rightarrow> (Inl e, fs)
         | Inr all_entries \<Rightarrow>
             (case add_entries sha1f compress resolve paths
                     (filter (\<lambda>e. path e \<notin> set paths) all_entries) fs of
                (Inl e, fs1) \<Rightarrow> (Inl e, fs1)
              | (Inr entries, fs1) \<Rightarrow> write_index sha1f (sort_key path entries) fs1))"

section \<open>Trees\<close>

text \<open>One record of a tree payload, and the payload \<open>write_tree\<close> hashes.\<close>

definition tree_entry :: "int \<Rightarrow> string \<Rightarrow> bytes \<Rightarrow> bytes" where
  "tree_entry m p digest = (format_int 8 m @ '' '' @ p) @ [NUL] @ digest"

definition tree_payload :: "(int \<times> string \<times> bytes) list \<Rightarrow> bytes" where
  "tree_payload T = concat (map (\<lambda>(m, p, digest). tree_entry m p digest) T)"

definition write_tree ::
  "(bytes \<Rightarrow> bytes) \<Rightarrow> (bytes \<Rightarrow> bytes) \<Rightarrow> repo \<Rightarrow> (error + string) \<times> repo" where
  "write_tree sha1f compress fs =
     (case read_index sha1f fs of
        Inl e \<Rightarrow> (Inl e, fs)
      | Inr entries \<Rightarrow>
          if \<exists>entry \<in> set entries. CHR ''/'' \<in> set (path entry)
          then (Inl (AssertionError ''only a single top-level directory is supported''), fs)
          else (case hash_object sha1f compress
                       (tree_payload (map (\<lambda>entry. (mode entry, path entry, sha1 entry)) entries))
                       ''tree'' True fs of
                  (h, fs1) \<Rightarrow> (Inr h, fs1)))"

text \<open>The loop of \<open>read_tree\<close>; the first argument counts the iterations left.\<close>

fun read_tree_loop ::
  "nat \<Rightarrow> bytes \<Rightarrow> nat \<Rightarrow> (int \<times> string \<times> string) list
     \<Rightarrow> error + (int \<times> string \<times> string) list" where
  "read_tree_loop 0 data i entries = Inr entries"
| "read_tree_loop (Suc n) data i entries =
     (case find_byte NUL data i of
        None \<Rightarrow> Inr entries
      | Some end \<Rightarrow>
          ebind (decode (slice data i end)) (\<lambda>header.
            case split header of
              [mode_str, p] \<Rightarrow>
                ebind (py_int 8 mode_str) (\<lambda>m.
                  read_tree_loop n data (end + 1 + 20)
                    (entries @ [(m, p, hex (slice data (end + 1) (end + 21)))]))
            | _ \<Rightarrow> Inl (ValueError ''unpack'')))"

definition read_tree ::
  "(bytes \<Rightarrow> error + bytes) \<Rightarrow> repo \<Rightarrow> string option \<Rightarrow> bytes option
     \<Rightarrow> error + (int \<times> string \<times> string) list" where
  "read_tree decompress fs sha1_arg data_arg =
     (case sha1_arg of
        Some h \<Rightarrow>
          ebind (read_object decompress fs h) (\<lambda>(obj_type, data).
            if obj_type \<noteq> ''tree'' then Inl (AssertionError '''')
            else read_tree_loop 1000 data 0 [])
      | None \<Rightarrow>
          (case data_arg of
             None \<Rightarrow> Inl TypeError
           | Some data \<Rightarrow> read_tree_loop 1000 data 0 []))"

section \<open>Commits\<close>

definition get_local_master_hash :: "repo \<Rightarrow> error + string option" where
  "get_local_master_hash fs =
     (case master_file fs of
        None \<Rightarrow> Inr None
      | Some data \<Rightarrow> ebind (decode data) (\<lambda>s. Inr (Some (strip s))))"

text \<open>\<open>'{:02}'.format(n)\<close> for \<open>n \<ge> 0\<close>.\<close>

definition format_02 :: "int \<Rightarrow> string" where
  "format_02 n = (if 0 \<le> n \<and> n < 10 then ''0'' @ format_int 10 n else format_int 10 n)"

text \<open>
  \<open>timestamp\<close> is \<open>int(time.mktime(time.localtime()))\<close> and \<open>timezone\<close> is
  \<open>time.timezone\<close>.
\<close>

definition author_time :: "int \<Rightarrow> int \<Rightarrow> string" where
  "author_time timestamp timezone =
     (let utc_offset = - timezone
      in format_int 10 timestamp @ '' ''
         @ (if utc_offset > 0 then ''+'' else ''-'')
         @ format_02 (\<bar>utc_offset\<bar> div 3600)
         @ format_02 ((\<bar>utc_offset\<bar> div 60) mod 60))"

definition author_or_default :: "string option \<Rightarrow> string" where
  "author_or_default author_arg =
     (case author_arg of None \<Rightarrow> ''MorbidArk <1482506841@qq.com>'' | Some a \<Rightarrow> a)"

text \<open>\<open>'\n'.join(lines)\<close>.\<close>

definition join_lines :: "string list \<Rightarrow> string" where
  "join_lines ls = concat (case ls of [] \<Rightarrow> [] | l # r \<Rightarrow> l # map (\<lambda>x. CHR 0x0A # x) r)"

text \<open>The list \<open>lines\<close> of \<open>commit\<close>; \<open>if parent:\<close> holds for a non-empty text.\<close>

definition commit_lines ::
  "string \<Rightarrow> string option \<Rightarrow> string \<Rightarrow> string \<Rightarrow> string \<Rightarrow> string list" where
  "commit_lines tree parent author time message =
     [''tree'' @ tree]
     @ (case parent of None \<Rightarrow> [] | Some p \<Rightarrow> if p \<noteq> [] then [''parent '' @ p] else [])
     @ [''author '' @ author @ '' '' @ time,
        ''committer '' @ author @ '' '' @ time,
        [], message, []]"

text \<open>
  \<open>commit\<close>: the tree is written, the branch file read, the payload stored as a
  \<open>commit\<close> object and the branch file overwritten with \<open>sha1 + '\n'\<close>.
\<close>

definition commit ::
  "(bytes \<Rightarrow> bytes) \<Rightarrow> (bytes \<Rightarrow> bytes) \<Rightarrow> int \<Rightarrow> int \<Rightarrow> string \<Rightarrow> string option \<Rightarrow> repo
     \<Rightarrow> (error + string) \<times> repo" where
  "commit sha1f compress timestamp timezone message author_arg fs =
     (case write_tree sha1f compress fs of
        (Inl e, fs1) \<Rightarrow> (Inl e, fs1)
      | (Inr tree, fs1) \<Rightarrow>
          (case get_local_master_hash fs1 of
             Inl e \<Rightarrow> (Inl e, fs1)
           | Inr parent \<Rightarrow>
               (case hash_object sha1f compress
                       (join_lines (commit_lines tree parent (author_or_default author_arg)
                          (author_time timestamp timezone) message))
                       ''commit'' True fs1 of
                  (h, fs2) \<Rightarrow> (Inr h, fs2\<lparr>master_file := Some (h @ [CHR 0x0A])\<rparr>))))"

definition is_digit :: "char \<Rightarrow> bool" where
  "is_digit c = (48 \<le> (of_char c :: nat) \<and> (of_char c :: nat) \<le> 57)"

definition plain :: "char \<Rightarrow> bool" where
  "plain c = (33 \<le> (of_char c :: nat) \<and> (of_char c :: nat) \<le> 126)"

fun no_ws :: "string \<Rightarrow> bool" where
  "no_ws [] = True"
| "no_ws (c # cs) = (ws_len (c # cs) = 0 \<and> no_ws cs)"

definition out_entry :: "int \<times> string \<times> bytes \<Rightarrow> int \<times> string \<times> string" where
  "out_entry t = (case t of (m, p, digest) \<Rightarrow> (m, p, hex digest))"

definition valid_tree_entry :: "int \<times> string \<times> bytes \<Rightarrow> bool" where
  "valid_tree_entry t =
     (case t of (m, p, digest) \<Rightarrow>
        p \<noteq> [] \<and> NUL \<notin> set p \<and> no_ws p \<and> utf8_valid p \<and> length digest = 20)"

definition empty_repo :: repo where
  "empty_repo = \<lparr>index_file = None, master_file = None, objects = Map.empty, worktree = []\<rparr>"

definition no_compression :: "bytes \<Rightarrow> error + bytes" where
  "no_compression data = Inr data"

definition fits :: "index_entry \<Rightarrow> bool" where
  "fits e =
     (0 \<le> ctime_s e \<and> ctime_s e < 4294967296 \<and> 0 \<le> ctime_n e \<and> ctime_n e < 4294967296
      \<and> 0 \<le> mtime_s e \<and> mtime_s e < 4294967296 \<and> 0 \<le> mtime_n e \<and> mtime_n e < 4294967296
      \<and> 0 \<le> dev e \<and> dev e < 4294967296 \<and> 0 \<le> ino e \<and> ino e < 4294967296
      \<and> 0 \<le> mode e \<and> mode e < 4294967296 \<and> 0 \<le> uid e \<and> uid e < 4294967296
      \<and> 0 \<le> gid e \<and> gid e < 4294967296 \<and> 0 \<le> size_f e \<and> size_f e < 4294967296
      \<and> 0 \<le> flags e \<and> flags e < 65536)"

definition valid_entry :: "index_entry \<Rightarrow> bool" where
  "valid_entry e =
     (fits e \<and> length (sha1 e) = 20 \<and> NUL \<notin> set (path e) \<and> utf8_valid (path e))"

definition entry_head :: "index_entry \<Rightarrow> bytes" where
  "entry_head e =
     be_bytes 4 (ctime_s e) @ be_bytes 4 (ctime_n e) @ be_bytes 4 (mtime_s e)
     @ be_bytes 4 (mtime_n e) @ be_bytes 4 (dev e) @ be_bytes 4 (ino e) @ be_bytes 4 (mode e)
     @ be_bytes 4 (uid e) @ be_bytes 4 (gid e) @ be_bytes 4 (size_f e) @ sha1 e
     @ be_bytes 2 (flags e)"

definition entry_pad :: "index_entry \<Rightarrow> nat" where
  "entry_pad e = ((62 + length (path e) + 8) div 8) * 8 - 62 - length (path e)"

definition packed :: "index_entry \<Rightarrow> bytes" where
  "packed e = entry_head e @ path e @ replicate (entry_pad e) NUL"

definition index_body :: "index_entry list \<Rightarrow> bytes" where
  "index_body es =
     ''DIRC'' @ be_bytes 4 2 @ be_bytes 4 (int (length es)) @ concat (map packed es)"

definition example_entry :: index_entry where
  "example_entry =
     \<lparr>ctime_s = 1, ctime_n = 0, mtime_s = 2, mtime_n = 0, dev = 3, ino = 4, mode = 33188,
      uid = 5, gid = 6, size_f = 7, sha1 = replicate 20 (CHR ''x''), flags = 1, path = ''a''\<rparr>"

section \<open>Properties of the object store\<close>


lemma hash_object_nowrite:
  "hash_object sha1f compress data ty False fs =
     (hex (sha1f (ty @ '' '' @ format_int 10 (int (length data)) @ [NUL] @ data)), fs)"
  by (simp add: hash_object_def Let_def)







lemma of_char_digit_char: "d < 10 \<Longrightarrow> (of_char (digit_char d) :: nat) = 48 + d"
  by (simp add: digit_char_def)

lemma is_digit_digit_char: "d < 10 \<Longrightarrow> is_digit (digit_char d)"
  by (simp add: is_digit_def of_char_digit_char)

lemma digit_val_digit_char: "d < 10 \<Longrightarrow> digit_val (digit_char d) = Some d"
  by (simp add: digit_val_def of_char_digit_char)

lemma is_digit_plain: "is_digit c \<Longrightarrow> plain c"
  by (simp add: is_digit_def plain_def)

lemma is_digit_not_underscore: "is_digit c \<Longrightarrow> c \<noteq> CHR ''_''"
  by (auto simp: is_digit_def)

lemma digits_of_nonempty: "digits_of b n \<noteq> []"
  by (subst digits_of.simps) simp

lemma digits_of_is_digit:
  assumes "2 \<le> b" "b \<le> 10"
  shows "\<forall>c \<in> set (digits_of b n). is_digit c"
  using assms
proof (induction b n rule: digits_of.induct)
  case (1 b n)
  show ?case
  proof (cases "n < b")
    case True
    then show ?thesis
      using 1(2,3) by (subst digits_of.simps) (simp add: is_digit_digit_char)
  next
    case False
    have "n mod b < b" using 1(2) by simp
    then have "n mod b < 10" using 1(3) by linarith
    then show ?thesis
      using False 1 by (subst digits_of.simps) (auto simp: is_digit_digit_char)
  qed
qed

lemma parse_digits_digits_of:
  assumes "2 \<le> b" "b \<le> 10"
  shows "parse_digits b prev acc (digits_of b n @ cs) =
         parse_digits b True (acc * b ^ length (digits_of b n) + n) cs"
  using assms
proof (induction b n arbitrary: prev acc cs rule: digits_of.induct)
  case (1 b n)
  show ?case
  proof (cases "n < b")
    case True
    then have d1: "digits_of b n = [digit_char n]"
      by (subst digits_of.simps) simp
    have d2: "n < 10" using True 1(3) by linarith
    note d = d1 d2
    show ?thesis
      using True d(2) unfolding d(1)
      by (simp add: digit_val_digit_char is_digit_not_underscore is_digit_digit_char)
  next
    case False
    have m2: "n mod b < b" using 1(2) by simp
    then have m1: "n mod b < 10" using 1(3) by linarith
    note m = m1 m2
    have d: "digits_of b n = digits_of b (n div b) @ [digit_char (n mod b)]"
      using False 1(2) by (subst digits_of.simps) simp
    have "parse_digits b prev acc (digits_of b n @ cs) =
          parse_digits b True (acc * b ^ length (digits_of b (n div b)) + n div b)
            (digit_char (n mod b) # cs)"
      unfolding d using 1(1) [of prev acc "digit_char (n mod b) # cs"] False 1(2,3) by simp
    also have "\<dots> = parse_digits b True
        ((acc * b ^ length (digits_of b (n div b)) + n div b) * b + n mod b) cs"
      using m by (simp add: digit_val_digit_char is_digit_not_underscore is_digit_digit_char)
    also have "(acc * b ^ length (digits_of b (n div b)) + n div b) * b + n mod b =
        acc * b ^ length (digits_of b n) + n"
      unfolding d by (simp add: algebra_simps)
    finally show ?thesis .
  qed
qed

lemma parse_digits_format:
  assumes "2 \<le> b" "b \<le> 10"
  shows "parse_digits b False 0 (digits_of b n) = Some n"
  using parse_digits_digits_of [OF assms, of False 0 n "[]"] by simp

lemma py_int_digits:
  assumes "s \<noteq> []" "\<forall>c \<in> set s. is_digit c" "b \<noteq> 10"
  shows "py_int b s = (case parse_digits b False 0 s of
           None \<Rightarrow> Inl (ValueError ''invalid literal for int()'') | Some n \<Rightarrow> Inr (int n))"
proof -
  obtain c t where s: "s = c # t" using assms(1) by (cases s) auto
  have c: "is_digit c" using assms(2) s by simp
  then have c1: "take 1 s \<noteq> ''-''" "take 1 s \<noteq> ''+''"
    unfolding s by (auto simp: is_digit_def)
  have c2: "take 2 s \<noteq> ''0o''" "take 2 s \<noteq> ''0O''"
    using assms(2) unfolding s by (cases t; auto simp: is_digit_def)+
  show ?thesis
    unfolding py_int_def Let_def using c1 c2 assms(3) by (simp split: option.split)
qed

lemma py_int_format_int:
  assumes "2 \<le> b" "b \<le> 10" "b \<noteq> 10"
  shows "py_int b (format_int b n) = Inr n"
proof (cases "n < 0")
  case False
  then show ?thesis
    using py_int_digits [where s = "digits_of b (nat n)" and b = b,
        OF digits_of_nonempty digits_of_is_digit [OF assms(1,2)] assms(3)]
    by (simp add: format_int_def parse_digits_format [OF assms(1,2)])
next
  case True
  let ?s = "digits_of b (nat (- n))"
  have ne: "?s \<noteq> []" by (rule digits_of_nonempty)
  have dg: "\<forall>c \<in> set ?s. is_digit c" by (rule digits_of_is_digit [OF assms(1,2)])
  obtain c t where s: "?s = c # t" using ne by (cases ?s) auto
  have "take 2 ?s \<noteq> ''0o''" "take 2 ?s \<noteq> ''0O''"
    using dg unfolding s by (cases t; auto simp: is_digit_def)+
  then show ?thesis
    using True assms(3) unfolding py_int_def format_int_def Let_def
    by (simp add: parse_digits_format [OF assms(1,2)])
qed

lemma ws_len_plain: "plain c \<Longrightarrow> ws_len (c # cs) = 0"
  by (auto simp: ws_len_def plain_def)

lemma ws_len_space: "ws_len (CHR '' '' # cs) = 1"
  by (simp add: ws_len_def)

lemma split_go_plain:
  "\<forall>c \<in> set a. plain c \<Longrightarrow> split_go 0 w (a @ rest) = split_go 0 (rev a @ w) rest"
  by (induction a arbitrary: w) (simp_all add: ws_len_plain)

lemma split_go_no_ws:
  "no_ws p \<Longrightarrow> p \<noteq> [] \<or> w \<noteq> [] \<Longrightarrow> split_go 0 w p = [rev w @ p]"
  by (induction p arbitrary: w) auto

lemma split_header:
  assumes "a \<noteq> []" "\<forall>c \<in> set a. plain c" "p \<noteq> []" "no_ws p"
  shows "split (a @ '' '' @ p) = [a, p]"
proof -
  have "split (a @ '' '' @ p) = split_go 0 (rev a) (CHR '' '' # p)"
    unfolding split_def using split_go_plain [OF assms(2), of "[]" "CHR '' '' # p"] by simp
  also have "\<dots> = [a] @ split_go 0 [] p"
    using assms(1) by (simp add: ws_len_space)
  also have "split_go 0 [] p = [p]"
    using split_go_no_ws [OF assms(4), of "[]"] assms(3) by simp
  finally show ?thesis by simp
qed

lemma utf8_valid_ascii:
  "\<forall>c \<in> set a. (of_char c :: nat) < 128 \<Longrightarrow> utf8_valid (a @ s) = utf8_valid s"
  by (induction a) (simp_all add: utf8_valid_def)

lemma index_from_append:
  "c \<notin> set h \<Longrightarrow> index_from c (h @ c # rest) k = Some (k + length h)"
  by (induction h arbitrary: k) auto

lemma find_byte_append:
  "c \<notin> set h \<Longrightarrow> find_byte c (pre @ h @ c # rest) (length pre) = Some (length pre + length h)"
  by (simp add: find_byte_def index_from_append)

lemma find_byte_end: "find_byte c data (length data) = None"
  by (simp add: find_byte_def)

lemma slice_middle: "slice (pre @ h @ rest) (length pre) (length pre + length h) = h"
  by (simp add: slice_def)

lemma format_int_plain:
  assumes "2 \<le> b" "b \<le> 10"
  shows "\<forall>c \<in> set (format_int b n). plain c"
  using digits_of_is_digit [OF assms(1,2)] is_digit_plain
  by (auto simp: format_int_def plain_def)

lemma format_int_nonempty: "format_int b n \<noteq> []"
  by (simp add: format_int_def digits_of_nonempty)

lemma plain_not_NUL: "plain c \<Longrightarrow> c \<noteq> NUL"
  by (auto simp: plain_def NUL_def)

lemma plain_ascii: "plain c \<Longrightarrow> (of_char c :: nat) < 128"
  by (simp add: plain_def)

lemma read_tree_loop_step:
  assumes "valid_tree_entry (m, p, digest)"
  shows "read_tree_loop (Suc n) (pre @ tree_entry m p digest @ rest) (length pre) acc =
         read_tree_loop n (pre @ tree_entry m p digest @ rest)
           (length (pre @ tree_entry m p digest)) (acc @ [(m, p, hex digest)])"
proof -
  let ?a = "format_int 8 m"
  let ?h = "?a @ '' '' @ p"
  let ?data = "pre @ tree_entry m p digest @ rest"
  from assms have v: "p \<noteq> []" "NUL \<notin> set p" "no_ws p" "utf8_valid p" "length digest = 20"
    by (simp_all add: valid_tree_entry_def)
  have pl: "\<forall>c \<in> set ?a. plain c"
    by (rule format_int_plain) simp_all
  have data: "?data = pre @ ?h @ NUL # (digest @ rest)"
    by (simp add: tree_entry_def)
  have nonul: "NUL \<notin> set ?h"
    using pl v(2) plain_not_NUL by (auto simp: NUL_def)
  have fb: "find_byte NUL ?data (length pre) = Some (length pre + length ?h)"
    unfolding data using nonul by (rule find_byte_append)
  have sl: "slice ?data (length pre) (length pre + length ?h) = ?h"
    unfolding data by (rule slice_middle)
  have "\<forall>c \<in> set (?a @ '' ''). (of_char c :: nat) < 128"
    using pl plain_ascii by auto
  then have "utf8_valid ((?a @ '' '') @ p) = utf8_valid p"
    by (rule utf8_valid_ascii)
  then have dec: "decode ?h = Inr ?h"
    using v(4) by (simp add: decode_def)
  have sp: "split ?h = [?a, p]"
    using format_int_nonempty pl v(1) v(3) by (rule split_header)
  have pi: "py_int 8 ?a = Inr m"
    by (rule py_int_format_int) simp_all
  have dg: "slice ?data (length pre + length ?h + 1) (length pre + length ?h + 21) = digest"
  proof -
    have "?data = (pre @ ?h @ [NUL]) @ digest @ rest"
      by (simp add: tree_entry_def)
    then have "slice ?data (length (pre @ ?h @ [NUL])) (length (pre @ ?h @ [NUL]) + length digest)
        = digest"
      by (metis slice_middle)
    then show ?thesis using v(5) by (simp add: add.assoc)
  qed
  have len: "length pre + length ?h + 1 + 20 = length (pre @ tree_entry m p digest)"
    using v(5) by (simp add: tree_entry_def)
  show ?thesis
    unfolding read_tree_loop.simps fb option.case sl dec ebind_def sum.case sp list.case pi dg len
    by simp
qed

lemma read_tree_loop_payload:
  assumes "\<forall>t \<in> set T. valid_tree_entry t"
  shows "read_tree_loop n (pre @ tree_payload T) (length pre) acc =
         Inr (acc @ map out_entry (take n T))"
  using assms
proof (induction T arbitrary: n pre acc)
  case Nil
  then show ?case
    by (cases n) (simp_all add: tree_payload_def find_byte_end)
next
  case (Cons t T)
  obtain m p digest where t: "t = (m, p, digest)" by (cases t) auto
  show ?case
  proof (cases n)
    case 0
    then show ?thesis by simp
  next
    case (Suc k)
    have v: "valid_tree_entry (m, p, digest)" using Cons.prems t by simp
    have pay: "pre @ tree_payload (t # T) = pre @ tree_entry m p digest @ tree_payload T"
      by (simp add: tree_payload_def t)
    have "read_tree_loop (Suc k) (pre @ tree_payload (t # T)) (length pre) acc =
          read_tree_loop k ((pre @ tree_entry m p digest) @ tree_payload T)
            (length (pre @ tree_entry m p digest)) (acc @ [(m, p, hex digest)])"
      unfolding pay using read_tree_loop_step [OF v, of k pre "tree_payload T" acc] by simp
    also have "\<dots> = Inr ((acc @ [(m, p, hex digest)]) @ map out_entry (take k T))"
      using Cons.prems by (intro Cons.IH) simp
    finally show ?thesis
      using Suc by (simp add: t out_entry_def)
  qed
qed

lemma read_tree_data:
  "read_tree decompress fs None (Some data) = read_tree_loop 1000 data 0 []"
  by (simp add: read_tree_def)

lemma read_tree_payload:
  assumes "\<forall>t \<in> set T. valid_tree_entry t"
  shows "read_tree decompress fs None (Some (tree_payload T)) = Inr (map out_entry (take 1000 T))"
  using read_tree_loop_payload [OF assms, of 1000 "[]" "[]"] by (simp add: read_tree_data)

lemma valid_tree_entry_example: "valid_tree_entry (33188, ''a'', replicate 20 (CHR ''x''))"
  by (simp add: valid_tree_entry_def NUL_def ws_len_def utf8_valid_def)

lemma read_tree_replicate:
  assumes "valid_tree_entry e"
  shows "read_tree decompress fs None (Some (tree_payload (replicate n e))) =
         Inr (replicate (min 1000 n) (out_entry e))"
proof -
  have "\<forall>t \<in> set (replicate n e). valid_tree_entry t"
    using assms by simp
  then show ?thesis
    by (simp add: read_tree_payload)
qed

lemma read_tree_loop_bad_header:
  assumes "find_byte NUL data i = Some k" "decode (slice data i k) = Inr h"
    "length (split h) \<noteq> 2"
  shows "read_tree_loop (Suc n) data i acc = Inl (ValueError ''unpack'')"
  using assms by (auto simp: ebind_def split: list.splits)

lemma read_tree_bad_header:
  assumes "find_byte NUL data 0 = Some k" "decode (slice data 0 k) = Inr h"
    "length (split h) \<noteq> 2"
  shows "read_tree decompress fs None (Some data) = Inl (ValueError ''unpack'')"
proof -
  have "read_tree_loop (Suc 999) data 0 [] = Inl (ValueError ''unpack'')"
    using assms by (rule read_tree_loop_bad_header)
  moreover have "(1000::nat) = Suc 999" by simp
  ultimately have "read_tree_loop 1000 data 0 [] = Inl (ValueError ''unpack'')"
    by (simp only:)
  then show ?thesis by (simp only: read_tree_data)
qed

lemma read_tree_unsplittable:
  assumes "NUL \<notin> set p" "utf8_valid p" "length (split_go 0 [] p) \<noteq> 1"
  shows "read_tree decompress fs None (Some (tree_payload ((m, p, digest) # T)))
         = Inl (ValueError ''unpack'')"
proof -
  let ?a = "format_int 8 m"
  let ?h = "?a @ '' '' @ p"
  let ?data = "tree_payload ((m, p, digest) # T)"
  have pl: "\<forall>c \<in> set ?a. plain c"
    by (rule format_int_plain) simp_all
  have data: "?data = [] @ ?h @ NUL # (digest @ tree_payload T)"
    by (simp add: tree_payload_def tree_entry_def)
  have nonul: "NUL \<notin> set ?h"
    using pl assms(1) plain_not_NUL by (auto simp: NUL_def)
  have "find_byte NUL ([] @ ?h @ NUL # (digest @ tree_payload T)) (length ([] :: bytes))
        = Some (length ([] :: bytes) + length ?h)"
    using nonul by (rule find_byte_append)
  then have fb: "find_byte NUL ?data 0 = Some (length ?h)"
    unfolding data by simp
  have "slice ([] @ ?h @ (NUL # (digest @ tree_payload T))) (length ([] :: bytes))
          (length ([] :: bytes) + length ?h) = ?h"
    by (rule slice_middle)
  then have sl: "slice ?data 0 (length ?h) = ?h"
    unfolding data by simp
  have "\<forall>c \<in> set (?a @ '' ''). (of_char c :: nat) < 128"
    using pl plain_ascii by auto
  then have "utf8_valid ((?a @ '' '') @ p) = utf8_valid p"
    by (rule utf8_valid_ascii)
  then have dec: "decode (slice ?data 0 (length ?h)) = Inr ?h"
    unfolding sl using assms(2) by (simp add: decode_def)
  have "split ?h = split_go 0 (rev ?a) (CHR '' '' # p)"
    unfolding split_def using split_go_plain [OF pl, of "[]" "CHR '' '' # p"] by simp
  also have "\<dots> = [?a] @ split_go 0 [] p"
    using format_int_nonempty [of 8 m] by (simp add: ws_len_space)
  finally have "length (split ?h) \<noteq> 2"
    using assms(3) by simp
  with fb dec show ?thesis
    by (rule read_tree_bad_header)
qed

text \<open>
  C3 (tree round-trip), as stated, fails: a path with a space and an empty path make
  \<open>read_tree\<close> raise \<open>ValueError\<close>, and of 1001 records only 1000 are returned.
\<close>

theorem read_tree_roundtrip_counterexample:
  "read_tree no_compression empty_repo None
      (Some (tree_payload [(33188, ''a b'', replicate 20 (CHR ''x''))]))
     = Inl (ValueError ''unpack'')
   \<and> read_tree no_compression empty_repo None
      (Some (tree_payload [(33188, [], replicate 20 (CHR ''x''))]))
     = Inl (ValueError ''unpack'')
   \<and> read_tree no_compression empty_repo None
      (Some (tree_payload (replicate 1001 (33188, ''a'', replicate 20 (CHR ''x'')))))
     = Inr (replicate 1000 (out_entry (33188, ''a'', replicate 20 (CHR ''x''))))"
proof (intro conjI)
  show "read_tree no_compression empty_repo None
      (Some (tree_payload [(33188, ''a b'', replicate 20 (CHR ''x''))]))
     = Inl (ValueError ''unpack'')"
    by (rule read_tree_unsplittable)
      (simp_all add: NUL_def utf8_valid_def ws_len_def)
  show "read_tree no_compression empty_repo None
      (Some (tree_payload [(33188, [], replicate 20 (CHR ''x''))]))
     = Inl (ValueError ''unpack'')"
    by (rule read_tree_unsplittable) (simp_all add: utf8_valid_def)
  have "min (1000 :: nat) 1001 = 1000" by simp
  then show "read_tree no_compression empty_repo None
      (Some (tree_payload (replicate 1001 (33188, ''a'', replicate 20 (CHR ''x'')))))
     = Inr (replicate 1000 (out_entry (33188, ''a'', replicate 20 (CHR ''x''))))"
    using read_tree_replicate [OF valid_tree_entry_example, of no_compression empty_repo 1001]
    by (simp only:)
qed

text \<open>
  C3 (tree round-trip), amended.  For every sequence of at most 1000 triples whose paths
  are non-empty UTF-8 text without NUL and without white space and whose digests have 20
  bytes, decoding the payload \<open>write_tree\<close> builds gives the sequence back, each digest
  in hexadecimal.
\<close>

theorem read_tree_roundtrip:
  assumes "\<forall>t \<in> set T. valid_tree_entry t" and "length T \<le> 1000"
  shows "read_tree decompress fs None (Some (tree_payload T)) = Inr (map out_entry T)"
  using read_tree_payload [OF assms(1), of decompress fs] assms(2) by simp

theorem read_tree_roundtrip_witness:
  "valid_tree_entry (33188, ''a'', replicate 20 (CHR ''x''))
   \<and> length [(33188 :: int, ''a'', replicate 20 (CHR ''x''))] \<le> 1000
   \<and> read_tree no_compression empty_repo None
        (Some (tree_payload [(33188, ''a'', replicate 20 (CHR ''x''))]))
      = Inr [(33188, ''a'', hex (replicate 20 (CHR ''x'')))]"
proof -
  have v: "\<forall>t \<in> set [(33188, ''a'', replicate 20 (CHR ''x''))]. valid_tree_entry t"
    by (simp add: valid_tree_entry_example)
  have l: "length [(33188 :: int, ''a'', replicate 20 (CHR ''x''))] \<le> 1000"
    by simp
  from read_tree_roundtrip [OF v l, of no_compression empty_repo] l show ?thesis
    by (simp add: out_entry_def valid_tree_entry_example)
qed

text \<open>
  C4 (tree-decode cap), as stated, fails: on a payload of 1001 well-formed records
  \<open>read_tree\<close> raises nothing and returns 1000 entries.
\<close>

theorem read_tree_cap_counterexample:
  "read_tree no_compression empty_repo None
      (Some (tree_payload (replicate 1001 (33188, ''a'', replicate 20 (CHR ''x'')))))
     = Inr (replicate 1000 (33188, ''a'', hex (replicate 20 (CHR ''x''))))"
proof -
  have "min (1000 :: nat) 1001 = 1000" by simp
  then have "read_tree no_compression empty_repo None
      (Some (tree_payload (replicate 1001 (33188, ''a'', replicate 20 (CHR ''x'')))))
     = Inr (replicate 1000 (out_entry (33188, ''a'', replicate 20 (CHR ''x''))))"
    using read_tree_replicate [OF valid_tree_entry_example, of no_compression empty_repo 1001]
    by (simp only:)
  moreover have "out_entry (33188, ''a'', replicate 20 (CHR ''x''))
      = (33188, ''a'', hex (replicate 20 (CHR ''x'')))"
    by (simp add: out_entry_def)
  ultimately show ?thesis by (simp only:)
qed

text \<open>
  C5 (prefix-lookup error taxonomy).  With no directory for the first two characters of
  the prefix, \<open>os.listdir\<close> raises \<open>FileNotFoundError\<close>; the \<open>ValueError\<close>
  for an object that is not found is never reached.
\<close>

theorem read_object_missing_directory:
  "read_object no_compression empty_repo ''abcd'' = Inl FileNotFoundError"
  by (simp add: read_object_def find_object_def py_len_def is_cont_def listdir_def
      empty_repo_def ebind_def)

lemma read_tree_loop_prefix:
  assumes "\<forall>t \<in> set T. valid_tree_entry t" and "length T \<le> n"
  shows "read_tree_loop n (pre @ tree_payload T @ rest) (length pre) acc =
         read_tree_loop (n - length T) (pre @ tree_payload T @ rest)
           (length (pre @ tree_payload T)) (acc @ map out_entry T)"
  using assms
proof (induction T arbitrary: n pre acc)
  case Nil
  then show ?case by (simp add: tree_payload_def)
next
  case (Cons t T)
  obtain m p digest where t: "t = (m, p, digest)" by (cases t) auto
  from Cons.prems(2) obtain k where n: "n = Suc k" and k: "length T \<le> k"
    by (cases n) auto
  have v: "valid_tree_entry (m, p, digest)" using Cons.prems(1) t by simp
  have oe: "out_entry t = (m, p, hex digest)" by (simp add: t out_entry_def)
  have vs: "\<forall>t \<in> set T. valid_tree_entry t" using Cons.prems(1) by simp
  have pay: "pre @ tree_payload (t # T) @ rest =
      pre @ tree_entry m p digest @ (tree_payload T @ rest)"
    by (simp add: tree_payload_def t)
  have pay2: "pre @ tree_payload (t # T) @ rest =
      (pre @ tree_entry m p digest) @ tree_payload T @ rest"
    by (simp add: tree_payload_def t)
  have len: "length (pre @ tree_payload (t # T)) =
      length ((pre @ tree_entry m p digest) @ tree_payload T)"
    by (simp add: tree_payload_def t)
  have "read_tree_loop (Suc k) (pre @ tree_payload (t # T) @ rest) (length pre) acc =
        read_tree_loop k ((pre @ tree_entry m p digest) @ tree_payload T @ rest)
          (length (pre @ tree_entry m p digest)) (acc @ [(m, p, hex digest)])"
    unfolding pay
    using read_tree_loop_step [OF v, of k pre "tree_payload T @ rest" acc] by simp
  also have "\<dots> =
        read_tree_loop (k - length T) ((pre @ tree_entry m p digest) @ tree_payload T @ rest)
          (length ((pre @ tree_entry m p digest) @ tree_payload T))
          ((acc @ [(m, p, hex digest)]) @ map out_entry T)"
    using vs k by (rule Cons.IH)
  finally show ?case
    unfolding n pay2 len using oe by (simp del: read_tree_loop.simps)
qed

lemma read_tree_loop_length:
  "read_tree_loop n data i acc = Inr es \<Longrightarrow> length es \<le> length acc + n"
proof (induction n arbitrary: i acc)
  case 0
  then show ?case by auto
next
  case (Suc n)
  show ?case
  proof (cases "find_byte NUL data i")
    case None
    with Suc.prems show ?thesis by auto
  next
    case (Some e)
    show ?thesis
    proof (cases "decode (slice data i e)")
      case (Inl err)
      with Suc.prems Some show ?thesis by (simp add: ebind_def)
    next
      case (Inr header)
      show ?thesis
      proof (cases "\<exists>mode_str p. split header = [mode_str, p]")
        case False
        then have "(case split header of
                      [mode_str, p] \<Rightarrow>
                        ebind (py_int 8 mode_str) (\<lambda>m.
                          read_tree_loop n data (e + 1 + 20)
                            (acc @ [(m, p, hex (slice data (e + 1) (e + 21)))]))
                    | _ \<Rightarrow> Inl (ValueError ''unpack'')) = Inl (ValueError ''unpack'')"
          by (auto split: list.splits)
        with Suc.prems Some Inr show ?thesis by (simp add: ebind_def)
      next
        case True
        then obtain mode_str p where sp: "split header = [mode_str, p]" by blast
        show ?thesis
        proof (cases "py_int 8 mode_str")
          case (Inl err)
          with Suc.prems Some Inr sp show ?thesis by (simp add: ebind_def)
        next
          case (Inr m)
          with Suc.prems Some \<open>decode (slice data i e) = Inr header\<close> sp
          have "read_tree_loop n data (e + 1 + 20)
                  (acc @ [(m, p, hex (slice data (e + 1) (e + 21)))]) = Inr es"
            by (simp add: ebind_def)
          from Suc.IH [OF this] show ?thesis by simp
        qed
      qed
    qed
  qed
qed

lemma valid_replicate:
  "valid_tree_entry e \<Longrightarrow> \<forall>t \<in> set (replicate n e). valid_tree_entry t"
  by simp

text \<open>
  C4 (tree-decode cap), amended.  \<open>read_tree\<close> decodes at most 1000 records: whatever
  the payload, a list it returns has at most 1000 entries; and when the payload starts with
  1000 well-formed records, it raises no error and returns exactly their entries, whatever
  follows them (more records or anything else), which it leaves unread.
\<close>

theorem read_tree_cap:
  "(read_tree decompress fs None (Some data) = Inr es \<longrightarrow> length es \<le> 1000)
   \<and> ((\<forall>t \<in> set T. valid_tree_entry t) \<and> length T = 1000 \<longrightarrow>
        read_tree decompress fs None (Some (tree_payload T @ rest)) = Inr (map out_entry T))"
proof (intro conjI impI)
  assume "read_tree decompress fs None (Some data) = Inr es"
  then have "read_tree_loop 1000 data 0 [] = Inr es"
    by (simp only: read_tree_data)
  from read_tree_loop_length [OF this] show "length es \<le> 1000"
    by simp
next
  assume a: "(\<forall>t \<in> set T. valid_tree_entry t) \<and> length T = 1000"
  then have v: "\<forall>t \<in> set T. valid_tree_entry t" and l: "length T \<le> 1000" and l0: "1000 - length T = 0"
    by simp_all
  have "read_tree_loop 1000 ([] @ tree_payload T @ rest) (length ([] :: bytes)) [] =
        read_tree_loop (1000 - length T) ([] @ tree_payload T @ rest)
          (length ([] @ tree_payload T)) ([] @ map out_entry T)"
    using v l by (rule read_tree_loop_prefix)
  then have "read_tree_loop 1000 (tree_payload T @ rest) 0 [] = Inr (map out_entry T)"
    unfolding l0 by simp
  then show "read_tree decompress fs None (Some (tree_payload T @ rest)) = Inr (map out_entry T)"
    by (simp only: read_tree_data)
qed

theorem read_tree_cap_witness:
  "valid_tree_entry (33188, ''a'', replicate 20 (CHR ''x''))
   \<and> length (replicate 1000 (33188 :: int, ''a'', replicate 20 (CHR ''x''))) = 1000
   \<and> read_tree no_compression empty_repo None
        (Some (tree_payload (replicate 1000 (33188, ''a'', replicate 20 (CHR ''x'')))
               @ tree_payload [(33188, ''b'', replicate 20 (CHR ''y''))]))
      = Inr (map out_entry (replicate 1000 (33188, ''a'', replicate 20 (CHR ''x''))))
   \<and> length (map out_entry (replicate 1000 (33188 :: int, ''a'', replicate 20 (CHR ''x''))))
      \<le> 1000"
proof -
  let ?e = "(33188 :: int, ''a'', replicate 20 (CHR ''x''))"
  let ?T = "replicate 1000 ?e"
  let ?rest = "tree_payload [(33188, ''b'', replicate 20 (CHR ''y''))]"
  have v: "\<forall>t \<in> set ?T. valid_tree_entry t"
    using valid_tree_entry_example by (rule valid_replicate)
  have l: "length ?T = 1000"
    by (simp only: length_replicate)
  note cap = read_tree_cap [of no_compression empty_repo "tree_payload ?T @ ?rest"
      "map out_entry ?T" ?T ?rest]
  from cap v l have r: "read_tree no_compression empty_repo None (Some (tree_payload ?T @ ?rest))
      = Inr (map out_entry ?T)"
    by blast
  with cap have "length (map out_entry ?T) \<le> 1000"
    by blast
  with r l valid_tree_entry_example show ?thesis
    by blast
qed

lemma length_be_bytes: "length (be_bytes k n) = k"
  by (simp add: be_bytes_def)

lemma be_int_snoc: "be_int (bs @ [c]) = be_int bs * 256 + of_char c"
  by (simp add: be_int_def)

lemma be_bytes_Suc:
  assumes "0 \<le> n"
  shows "be_bytes (Suc k) n = be_bytes k (n div 256) @ [char_of n]"
proof -
  have "map (\<lambda>i. char_of (n div 256 ^ (Suc k - 1 - i))) [0..<k] =
        map (\<lambda>i. char_of ((n div 256) div 256 ^ (k - 1 - i))) [0..<k]"
  proof (rule map_cong [OF refl])
    fix i assume "i \<in> set [0..<k]"
    then have i: "i < k" by simp
    then have "Suc k - 1 - i = Suc (k - 1 - i)" by simp
    then have "n div 256 ^ (Suc k - 1 - i) = n div (256 * 256 ^ (k - 1 - i))"
      by simp
    also have "\<dots> = (n div 256) div 256 ^ (k - 1 - i)"
      by (simp add: zdiv_zmult2_eq)
    finally show "char_of (n div 256 ^ (Suc k - 1 - i)) =
        char_of ((n div 256) div 256 ^ (k - 1 - i))"
      by simp
  qed
  then show ?thesis
    by (simp add: be_bytes_def)
qed

lemma be_int_be_bytes: "0 \<le> n \<Longrightarrow> n < 256 ^ k \<Longrightarrow> be_int (be_bytes k n) = n"
proof (induction k arbitrary: n)
  case 0
  then show ?case by (simp add: be_int_def be_bytes_def)
next
  case (Suc k)
  have "n < 256 * (256 ^ k :: int)"
    using Suc.prems(2) by simp
  then have d2: "n div 256 < 256 ^ k"
    by linarith
  have d1: "0 \<le> n div 256"
    using Suc.prems(1) by simp
  note d = d1 d2
  have "be_int (be_bytes (Suc k) n) = be_int (be_bytes k (n div 256)) * 256 + n mod 256"
    using Suc.prems(1) by (simp add: be_bytes_Suc be_int_snoc)
  also have "\<dots> = (n div 256) * 256 + n mod 256"
    using Suc.IH [OF d] by simp
  finally show ?case by simp
qed

lemma pack_int_ok: "0 \<le> n \<Longrightarrow> n < 256 ^ k \<Longrightarrow> pack_int k n = Inr (be_bytes k n)"
  by (simp add: pack_int_def)

lemma pack_s_exact: "length s = k \<Longrightarrow> pack_s k s = s"
  by (simp add: pack_s_def)

lemma pack_entry_valid:
  assumes "valid_entry e"
  shows "pack_entry e = Inr (packed e)"
proof -
  from assms have f: "fits e" and s: "length (sha1 e) = 20"
    by (simp_all add: valid_entry_def)
  have p4: "pack_int 4 n = Inr (be_bytes 4 n)" if "0 \<le> n" "n < 4294967296" for n
    using that by (intro pack_int_ok) simp_all
  have p2: "pack_int 2 n = Inr (be_bytes 2 n)" if "0 \<le> n" "n < 65536" for n
    using that by (intro pack_int_ok) simp_all
  from f have
    "pack_int 4 (ctime_s e) = Inr (be_bytes 4 (ctime_s e))"
    "pack_int 4 (ctime_n e) = Inr (be_bytes 4 (ctime_n e))"
    "pack_int 4 (mtime_s e) = Inr (be_bytes 4 (mtime_s e))"
    "pack_int 4 (mtime_n e) = Inr (be_bytes 4 (mtime_n e))"
    "pack_int 4 (dev e) = Inr (be_bytes 4 (dev e))"
    "pack_int 4 (ino e) = Inr (be_bytes 4 (ino e))"
    "pack_int 4 (mode e) = Inr (be_bytes 4 (mode e))"
    "pack_int 4 (uid e) = Inr (be_bytes 4 (uid e))"
    "pack_int 4 (gid e) = Inr (be_bytes 4 (gid e))"
    "pack_int 4 (size_f e) = Inr (be_bytes 4 (size_f e))"
    "pack_int 2 (flags e) = Inr (be_bytes 2 (flags e))"
    by (simp_all add: fits_def p4 p2)
  then show ?thesis
    unfolding pack_entry_def
    by (simp add: ebind_def packed_def entry_head_def entry_pad_def pack_s_exact [OF s])
qed

lemma length_entry_head: "length (sha1 e) = 20 \<Longrightarrow> length (entry_head e) = 62"
  by (simp add: entry_head_def length_be_bytes)

lemma entry_pad_pos: "0 < entry_pad e"
  unfolding entry_pad_def by presburger

lemma entry_pad_len:
  "62 + length (path e) + entry_pad e = ((62 + length (path e) + 8) div 8) * 8"
  unfolding entry_pad_def by presburger

lemma length_packed:
  "length (sha1 e) = 20 \<Longrightarrow> length (packed e) = ((62 + length (path e) + 8) div 8) * 8"
  using entry_pad_len [of e] by (simp add: packed_def length_entry_head)

lemma unpack_entry_head:
  assumes "fits e" "length (sha1 e) = 20"
  shows "unpack_entry (entry_head e) (path e) = e"
proof -
  have b4: "be_int (be_bytes 4 n) = n" if "0 \<le> n" "n < 4294967296" for n
    using that by (intro be_int_be_bytes) simp_all
  have b2: "be_int (be_bytes 2 n) = n" if "0 \<le> n" "n < 65536" for n
    using that by (intro be_int_be_bytes) simp_all
  from assms(1) have
    "be_int (be_bytes 4 (ctime_s e)) = ctime_s e"
    "be_int (be_bytes 4 (ctime_n e)) = ctime_n e"
    "be_int (be_bytes 4 (mtime_s e)) = mtime_s e"
    "be_int (be_bytes 4 (mtime_n e)) = mtime_n e"
    "be_int (be_bytes 4 (dev e)) = dev e"
    "be_int (be_bytes 4 (ino e)) = ino e"
    "be_int (be_bytes 4 (mode e)) = mode e"
    "be_int (be_bytes 4 (uid e)) = uid e"
    "be_int (be_bytes 4 (gid e)) = gid e"
    "be_int (be_bytes 4 (size_f e)) = size_f e"
    "be_int (be_bytes 2 (flags e)) = flags e"
    by (simp_all add: fits_def b4 b2)
  then show ?thesis
    using assms(2)
    by (simp add: unpack_entry_def entry_head_def slice_def length_be_bytes)
qed

lemma read_entries_end: "read_entries data (length data) acc = Inr acc"
  by (subst read_entries.simps) simp

lemma read_entries_step:
  assumes "valid_entry e"
  shows "read_entries (pre @ packed e @ rest) (length pre) acc =
         read_entries (pre @ packed e @ rest) (length (pre @ packed e)) (acc @ [e])"
proof -
  let ?data = "pre @ packed e @ rest"
  let ?p = "path e"
  from assms have f: "fits e" and s: "length (sha1 e) = 20" and nn: "NUL \<notin> set ?p"
    and u: "utf8_valid ?p"
    by (simp_all add: valid_entry_def)
  have hl: "length (entry_head e) = 62"
    using s by (rule length_entry_head)
  obtain k where k: "entry_pad e = Suc k"
    using entry_pad_pos [of e] by (cases "entry_pad e") auto
  have data1: "?data = (pre @ entry_head e) @ ?p @ NUL # (replicate k NUL @ rest)"
    by (simp add: packed_def k)
  have data2: "?data = pre @ entry_head e @ (?p @ replicate (entry_pad e) NUL @ rest)"
    by (simp add: packed_def)
  have cond: "length pre + 62 < length ?data"
    by (simp add: packed_def hl k)
  have "find_byte NUL ((pre @ entry_head e) @ ?p @ NUL # (replicate k NUL @ rest))
          (length (pre @ entry_head e)) = Some (length (pre @ entry_head e) + length ?p)"
    using nn by (rule find_byte_append)
  then have fb: "find_byte NUL ?data (length pre + 62) = Some (length pre + 62 + length ?p)"
    unfolding data1 [symmetric] by (simp add: hl)
  have "slice ((pre @ entry_head e) @ ?p @ (NUL # (replicate k NUL @ rest)))
          (length (pre @ entry_head e)) (length (pre @ entry_head e) + length ?p) = ?p"
    by (rule slice_middle)
  then have sp: "slice ?data (length pre + 62) (length pre + 62 + length ?p) = ?p"
    unfolding data1 [symmetric] by (simp add: hl)
  have "slice (pre @ entry_head e @ (?p @ replicate (entry_pad e) NUL @ rest))
          (length pre) (length pre + length (entry_head e)) = entry_head e"
    by (rule slice_middle)
  then have sh: "slice ?data (length pre) (length pre + 62) = entry_head e"
    unfolding data2 [symmetric] by (simp add: hl)
  have dec: "decode ?p = Inr ?p"
    using u by (simp add: decode_def)
  have un: "unpack_entry (entry_head e) ?p = e"
    using f s by (rule unpack_entry_head)
  have nx: "length pre + (62 + length ?p + 8) div 8 * 8 = length (pre @ packed e)"
    using length_packed [OF s] by simp
  show ?thesis
    apply (subst read_entries.simps)
    apply (simp only: cond if_True fb option.case sp dec sum.case sh un nx)
    done
qed

lemma read_entries_all:
  assumes "\<forall>e \<in> set es. valid_entry e"
  shows "read_entries (pre @ concat (map packed es)) (length pre) acc = Inr (acc @ es)"
  using assms
proof (induction es arbitrary: pre acc)
  case Nil
  then show ?case by (simp add: read_entries_end)
next
  case (Cons e es)
  have v: "valid_entry e" and vs: "\<forall>e \<in> set es. valid_entry e"
    using Cons.prems by simp_all
  have "read_entries (pre @ concat (map packed (e # es))) (length pre) acc =
        read_entries ((pre @ packed e) @ concat (map packed es)) (length (pre @ packed e))
          (acc @ [e])"
    using read_entries_step [OF v, of pre "concat (map packed es)" acc] by simp
  also have "\<dots> = Inr ((acc @ [e]) @ es)"
    using vs by (rule Cons.IH)
  finally show ?case by simp
qed

lemma pack_entries_valid:
  "\<forall>e \<in> set es. valid_entry e \<Longrightarrow> pack_entries es = Inr (map packed es)"
  by (induction es) (simp_all add: pack_entry_valid ebind_def)

lemma index_bytes_valid:
  assumes "\<forall>e \<in> set es. valid_entry e" and "length es < 4294967296"
  shows "index_bytes sha1f es = Inr (index_body es @ sha1f (index_body es))"
proof -
  have "pack_int 4 (int (length es)) = Inr (be_bytes 4 (int (length es)))"
    using assms(2) by (intro pack_int_ok) simp_all
  then show ?thesis
    using pack_entries_valid [OF assms(1)]
    by (simp add: index_bytes_def ebind_def index_body_def)
qed

lemma read_index_body:
  assumes len: "\<forall>x. length (sha1f x) = 20"
    and v: "\<forall>e \<in> set es. valid_entry e" and n: "length es < 4294967296"
    and fl: "index_file fs = Some (index_body es @ sha1f (index_body es))"
  shows "read_index sha1f fs = Inr es"
proof -
  let ?body = "index_body es"
  let ?data = "?body @ sha1f ?body"
  have l20: "length (sha1f ?body) = 20" using len by simp
  have tk: "take (length ?data - 20) ?data = ?body"
    using l20 by simp
  have dr: "drop (length ?data - 20) ?data = sha1f ?body"
    using l20 by simp
  have b12: "length ?body = 12 + length (concat (map packed es))"
    by (simp add: index_body_def length_be_bytes)
  then have ge: "\<not> length ?data < 12" by simp
  have sig: "take 4 ?data = ''DIRC''"
    by (simp add: index_body_def)
  have "slice ?data 4 8 = be_bytes 4 2"
    by (simp add: index_body_def slice_def length_be_bytes)
  then have ver: "be_int (slice ?data 4 8) = 2"
    by (simp add: be_int_be_bytes)
  have "slice ?data 8 12 = be_bytes 4 (int (length es))"
    by (simp add: index_body_def slice_def length_be_bytes)
  then have cnt: "be_int (slice ?data 8 12) = int (length es)"
    using n by (simp add: be_int_be_bytes)
  have d12: "drop 12 ?body = concat (map packed es)"
    by (simp add: index_body_def length_be_bytes)
  have "read_entries ([] @ concat (map packed es)) (length ([] :: bytes)) [] = Inr ([] @ es)"
    using v by (rule read_entries_all)
  then have re: "read_entries (concat (map packed es)) 0 [] = Inr es"
    by simp
  show ?thesis
    unfolding read_index_def fl option.case tk dr
    using ge sig ver cnt by (simp add: d12 re ebind_def)
qed

lemma write_index_valid:
  assumes "\<forall>e \<in> set es. valid_entry e" and "length es < 4294967296"
  shows "write_index sha1f es fs =
         (Inr (), fs\<lparr>index_file := Some (index_body es @ sha1f (index_body es))\<rparr>)"
  by (simp add: write_index_def index_bytes_valid [OF assms])



lemma valid_example_entry: "valid_entry example_entry"
  by (simp add: valid_entry_def fits_def example_entry_def NUL_def utf8_valid_def)

lemma length_sample_digest: "length (sample_digest x) = 20"
  by (simp add: sample_digest_def)

lemma read_index_empty_repo: "read_index sha1f empty_repo = Inr []"
  by (simp add: read_index_def empty_repo_def)

lemma write_index_flags:
  assumes "fits e" and "\<not> (0 \<le> fl \<and> fl < 65536)"
  shows "write_index sha1f [e\<lparr>flags := fl\<rparr>] fs = (Inl StructError, fs)"
proof -
  have p4: "pack_int 4 n = Inr (be_bytes 4 n)" if "0 \<le> n" "n < 4294967296" for n
    using that by (intro pack_int_ok) simp_all
  have "pack_int 2 fl = Inl StructError"
    using assms(2) by (auto simp: pack_int_def)
  then have "pack_entry (e\<lparr>flags := fl\<rparr>) = Inl StructError"
    using assms(1) by (simp add: pack_entry_def fits_def p4 ebind_def)
  then show ?thesis
    by (simp add: write_index_def index_bytes_def ebind_def)
qed

lemma write_index_too_many:
  assumes "valid_entry e" and "4294967296 \<le> n"
  shows "write_index sha1f (replicate n e) fs = (Inl StructError, fs)"
proof -
  have "\<forall>x \<in> set (replicate n e). valid_entry x"
    using assms(1) by simp
  then have "pack_entries (replicate n e) = Inr (map packed (replicate n e))"
    by (rule pack_entries_valid)
  moreover have "pack_int 4 (int (length (replicate n e))) = Inl StructError"
    using assms(2) by (simp add: pack_int_def)
  ultimately show ?thesis
    by (simp add: write_index_def index_bytes_def ebind_def)
qed

text \<open>
  C1 (index round-trip), as stated, fails: an entry whose flags do not fit 16 bits, and a
  sequence of \<open>2 ^ 32\<close> entries, satisfy the conditions of the claim, yet
  \<open>write_index\<close> raises \<open>struct.error\<close> and writes nothing, so that \<open>read_index\<close>
  still returns the empty list.
\<close>

theorem index_roundtrip_counterexample:
  "write_index sample_digest [example_entry\<lparr>flags := 65536\<rparr>] empty_repo
     = (Inl StructError, empty_repo)
   \<and> write_index sample_digest (replicate 4294967296 example_entry) empty_repo
     = (Inl StructError, empty_repo)
   \<and> read_index sample_digest empty_repo = Inr []"
proof (intro conjI)
  show "write_index sample_digest [example_entry\<lparr>flags := 65536\<rparr>] empty_repo
     = (Inl StructError, empty_repo)"
    using valid_example_entry by (intro write_index_flags) (simp_all add: valid_entry_def)
  show "write_index sample_digest (replicate 4294967296 example_entry) empty_repo
     = (Inl StructError, empty_repo)"
    using valid_example_entry by (rule write_index_too_many) simp
  show "read_index sample_digest empty_repo = Inr []"
    by (rule read_index_empty_repo)
qed

text \<open>
  C1 (index round-trip), amended.  The digest function returns 20 bytes.  For every
  sequence \<open>E\<close> of fewer than \<open>2 ^ 32\<close> entries in which the ten 32-bit fields and the
  16-bit flags of each entry fit their encodings, the \<open>sha1\<close> field has 20 bytes and the
  path is UTF-8 text without a NUL byte, \<open>write_index\<close> succeeds and \<open>read_index\<close>
  on the file it wrote returns exactly \<open>E\<close>.
\<close>

theorem index_roundtrip:
  assumes "\<forall>x. length (sha1f x) = 20"
    and "\<forall>e \<in> set E. valid_entry e"
    and "length E < 4294967296"
  shows "fst (write_index sha1f E fs) = Inr ()
         \<and> read_index sha1f (snd (write_index sha1f E fs)) = Inr E"
proof -
  have w: "write_index sha1f E fs =
      (Inr (), fs\<lparr>index_file := Some (index_body E @ sha1f (index_body E))\<rparr>)"
    using assms(2,3) by (rule write_index_valid)
  have "read_index sha1f (fs\<lparr>index_file := Some (index_body E @ sha1f (index_body E))\<rparr>)
      = Inr E"
    using assms by (rule read_index_body) simp
  with w show ?thesis by simp
qed

theorem index_roundtrip_witness:
  "valid_entry example_entry
   \<and> length [example_entry] < 4294967296
   \<and> fst (write_index sample_digest [example_entry] empty_repo) = Inr ()
   \<and> read_index sample_digest (snd (write_index sample_digest [example_entry] empty_repo))
       = Inr [example_entry]"
proof -
  have d: "\<forall>x. length (sample_digest x) = 20"
    by (simp add: length_sample_digest)
  have v: "\<forall>e \<in> set [example_entry]. valid_entry e"
    by (simp add: valid_example_entry)
  have l: "length [example_entry] < 4294967296"
    by simp
  from index_roundtrip [OF d v l, of empty_repo] l valid_example_entry show ?thesis
    by blast
qed






lemma changed_paths_frame:
  "snd (changed_paths sha1f compress resolve by_path ps fs) = fs"
proof (induction ps)
  case Nil
  show ?case by simp
next
  case (Cons p ps)
  obtain r fs2 where c: "changed_paths sha1f compress resolve by_path ps fs = (r, fs2)"
    by (cases "changed_paths sha1f compress resolve by_path ps fs")
  with Cons have "fs2 = fs" by simp
  with c show ?case
    by (simp add: hash_object_nowrite split: sum.split option.split)
qed

lemma changed_paths_frame_eq:
  "changed_paths sha1f compress resolve by_path ps fs = (r, fs2) \<Longrightarrow> fs2 = fs"
  using changed_paths_frame [of sha1f compress resolve by_path ps fs] by simp

lemma get_status_frame:
  "snd (get_status sha1f compress resolve fs) = fs"
  by (auto simp: get_status_def Let_def split: sum.split prod.split
        dest: changed_paths_frame_eq)

text \<open>
  C10 (read-only reconciliation).  \<open>hash_object\<close> with the write flag off returns the
  state it was given, and so do \<open>get_status\<close> and \<open>diff\<close>, whether they return a
  result or raise: the index file, the branch file, every directory of the object store
  and every file in it are unchanged, and no object file is created.
\<close>

theorem status_diff_read_only:
  "snd (hash_object sha1f compress data object_type False fs) = fs
   \<and> snd (get_status sha1f compress resolve fs) = fs
   \<and> snd (diff sha1f compress decompress splitlines unified_diff resolve fs) = fs"
proof (intro conjI)
  show "snd (hash_object sha1f compress data object_type False fs) = fs"
    by (simp add: hash_object_nowrite)
  show g: "snd (get_status sha1f compress resolve fs) = fs"
    by (rule get_status_frame)
  obtain r fs1 where s: "get_status sha1f compress resolve fs = (r, fs1)"
    by (cases "get_status sha1f compress resolve fs")
  with g have "fs1 = fs" by simp
  with s show "snd (diff sha1f compress decompress splitlines unified_diff resolve fs) = fs"
    by (simp add: diff_def split: sum.split prod.split)
qed

end
